theory Spec2Isabelle
  imports Main "HOL-Library.Word"
begin

section \<open>Data model (events/events.go, events/blockslice.go)\<close>

text \<open>
  Go's \<open>uint64\<close> is a 64-bit word: \<open>+\<close> and \<open>-\<close> wrap around, comparisons are
  unsigned. \<open>common.Address\<close> is \<open>[20]byte\<close> and \<open>common.Hash\<close> is \<open>[32]byte\<close>;
  both are kept as byte lists, their lengths being stated where a property needs them.
  \<open>*big.Int\<close> is an optional unbounded integer (\<open>None\<close> for the nil pointer).
\<close>

type_synonym u64 = "64 word"
type_synonym byte = "8 word"
type_synonym Address = "byte list"
type_synonym Hash = "byte list"

record Event =
  Address :: Address
  Topics :: "Hash list"
  Data :: "byte list"
  BlockNumber :: u64
  BlockHash :: Hash
  Index :: u64
  TxHash :: Hash
  TxIndex :: u64
  TxData :: "byte list"
  TxValue :: "int option"
  TxFrom :: Address
  TxGas :: u64

record Block =
  Number :: u64
  Hash :: Hash
  Events :: "Event list"

record BlockSlice =
  Start :: u64
  End :: u64
  DistanceFromHead :: u64
  Blocks :: "Block list"

text \<open>
  Each \<open>fmt.Errorf\<close> site of the functions described below is one constructor
  (\<open>ErrTransport\<close> stands for any error of the RPC client); \<open>Canceled\<close> is the
  sentinel \<open>CanceledError\<close>. The two \<open>Panic\<close> constructors stand for Go run-time panics
  (an index out of range, a nil pointer dereference), which are not returned errors
  but abort the calling goroutine.
\<close>

datatype error =
    ErrAppendBelowEnd
  | ErrConcatStart
  | ErrRollbackAboveEnd
  | ErrRollbackBelowStart
  | ErrExtendBelowEnd
  | ErrNewEndsBeforeOld
  | ErrFromBelowFirstBlock
  | ErrInvalidAddress
  | ErrParseBigInt
  | ErrTransport
  | Canceled
  | PanicIndexOutOfRange
  | PanicNilDereference

subsection \<open>BlockSlice operations\<close>

definition EmptyBlockSlice :: "u64 \<Rightarrow> BlockSlice" where
  "EmptyBlockSlice frm = \<lparr>Start = frm, End = frm, DistanceFromHead = 0, Blocks = []\<rparr>"


definition Concat :: "BlockSlice \<Rightarrow> BlockSlice \<Rightarrow> error + BlockSlice" where
  "Concat b other =
     (if End b \<noteq> Start other then Inl ErrConcatStart
      else Inr (b\<lparr>Blocks := Blocks b @ Blocks other, End := End other,
                   DistanceFromHead := DistanceFromHead other\<rparr>))"

text \<open>
  \<open>DeleteBeforeBlock\<close>: the loop stops at the first index whose block has
  \<open>Number \<ge> n\<close> and the slice keeps \<open>Blocks[i:]\<close>; \<open>Start\<close> is assigned \<open>n\<close>
  whatever it was.
\<close>

definition DeleteBeforeBlock :: "u64 \<Rightarrow> BlockSlice \<Rightarrow> BlockSlice" where
  "DeleteBeforeBlock n b =
     b\<lparr>Blocks := dropWhile (\<lambda>blk. \<not> Number blk \<ge> n) (Blocks b), Start := n\<rparr>"

text \<open>
  \<open>DeleteFromBlock\<close>: the loop runs from the last index downwards and stops at the
  first block with \<open>Number < n\<close>; the slice keeps \<open>Blocks[:i+1]\<close>. The subtraction on
  \<open>DistanceFromHead\<close> is the unsigned 64-bit one.
\<close>

definition DeleteFromBlock :: "u64 \<Rightarrow> BlockSlice \<Rightarrow> BlockSlice" where
  "DeleteFromBlock n b =
     b\<lparr>Blocks := rev (dropWhile (\<lambda>blk. \<not> Number blk < n) (rev (Blocks b))),
       DistanceFromHead := DistanceFromHead b - (End b - n),
       End := n\<rparr>"

definition Rollback :: "BlockSlice \<Rightarrow> u64 \<Rightarrow> error + BlockSlice" where
  "Rollback b n =
     (if n > End b then Inl ErrRollbackAboveEnd
      else if n < Start b then Inl ErrRollbackBelowStart
      else Inr (DeleteFromBlock n b))"

definition Extend :: "BlockSlice \<Rightarrow> u64 \<Rightarrow> error + BlockSlice" where
  "Extend b n = (if n < End b then Inl ErrExtendBelowEnd else Inr (b\<lparr>End := n\<rparr>))"

text \<open>
  The invariants of a slice (spec, data model): the window is well formed, the blocks
  are strictly increasing in \<open>Number\<close>, and every block lies in \<open>[Start, End)\<close>.
\<close>

definition increasing :: "Block list \<Rightarrow> bool" where
  "increasing bs = sorted_wrt (\<lambda>x y. Number x < Number y) bs"


section \<open>Messages and subscriptions (package events)\<close>

datatype Action = ActionAppend | ActionRollback | ActionSetNext

record Message =
  Action :: Action
  MsgNumber :: u64
  MsgBlock :: "Block option"

text \<open>
  A producer goroutine is sequential: what a subscriber can observe of it is the
  sequence of messages it has delivered on \<open>C\<close> and the value it finally posts on
  \<open>Err\<close>. A channel \<open>c\<close> is therefore the list of messages delivered so far. The
  caller-owned \<open>done\<close> channel is the number of suspension points (sends and waits) the
  producer still passes before it observes \<open>done\<close> closed; \<open>None\<close> when \<open>done\<close> is
  never closed. Every interleaving of the \<open>select\<close> in \<open>sendOrDone\<close> and \<open>waitOrDone\<close>
  is one such number.
\<close>

type_synonym chan = "Message list"
type_synonym done_chan = "nat option"

definition sendOrDone :: "chan \<Rightarrow> done_chan \<Rightarrow> Message \<Rightarrow> (chan \<times> done_chan) \<times> error option" where
  "sendOrDone c dn m =
     (case dn of
        None \<Rightarrow> ((c @ [m], None), None)
      | Some 0 \<Rightarrow> ((c, Some 0), Some Canceled)
      | Some (Suc k) \<Rightarrow> ((c @ [m], Some k), None))"

definition waitOrDone :: "done_chan \<Rightarrow> done_chan \<times> error option" where
  "waitOrDone dn =
     (case dn of
        None \<Rightarrow> (None, None)
      | Some 0 \<Rightarrow> (Some 0, Some Canceled)
      | Some (Suc k) \<Rightarrow> (Some k, None))"

text \<open>
  The terminal error channel: nothing posted while the producer runs, then exactly one
  value, nil (\<open>None\<close>) or an error.
\<close>

datatype terminal = Running | Closed "error option"

record Subscription =
  C :: chan
  Err :: terminal

section \<open>Reconciliation (events/events.go)\<close>

text \<open>
  The loop of \<open>MatchBlocks\<close> runs \<open>i\<close> over the indices of \<open>o.Blocks\<close> and reads
  \<open>new.Blocks[i]\<close>; Go panics when \<open>i\<close> is not below \<open>len(new.Blocks)\<close>.
\<close>

function match_loop :: "nat \<Rightarrow> Block list \<Rightarrow> Block list \<Rightarrow> u64 \<Rightarrow> error + (bool \<times> u64)" where
  "match_loop i oBlocks newBlocks lastGoodBlock =
     (if i < length oBlocks then
        (if i < length newBlocks then
           (if Hash (oBlocks ! i) \<noteq> Hash (newBlocks ! i) then Inr (False, lastGoodBlock)
            else match_loop (i + 1) oBlocks newBlocks (Number (newBlocks ! i)))
         else Inl PanicIndexOutOfRange)
      else Inr (True, lastGoodBlock))"
  by pat_completeness auto
termination
  by (relation "measure (\<lambda>(i, oBlocks, newBlocks, lastGoodBlock). length oBlocks - i)") auto

declare match_loop.simps [simp del]

definition MatchBlocks :: "BlockSlice \<Rightarrow> BlockSlice \<Rightarrow> error + (bool \<times> u64)" where
  "MatchBlocks new old =
     (if End new < End old then Inl ErrNewEndsBeforeOld
      else let lastGoodBlock = 0;
               o' = DeleteBeforeBlock (Start new) old
           in match_loop 0 (Blocks o') (Blocks new) lastGoodBlock)"

section \<open>The filter and the log source\<close>

text \<open>
  Modelled from the spec: \<open>ethereum.FilterQuery\<close> is declared outside the repository;
  the spec's data model gives it addresses, two optional block bounds and a list of
  topic alternatives per position.
\<close>

record FilterQuery =
  Addresses :: "Address list"
  FromBlock :: "int option"
  ToBlock :: "int option"
  FilterTopics :: "Hash list list"

text \<open>
  One call of \<open>GetLogs\<close> reaches the RPC endpoint; what it returns is the
  environment's answer to the query and the \<open>fetchTxDetails\<close> flag.
\<close>

type_synonym LogSource = "FilterQuery \<Rightarrow> bool \<Rightarrow> error + BlockSlice"

section \<open>ChainStreamer (events/chainstreamer.go)\<close>

definition DefaultBatchOverlap :: u64 where "DefaultBatchOverlap = 10"
definition DefaultFetchBatchSize :: u64 where "DefaultFetchBatchSize = 2000"
definition MaxEventlogSize :: u64 where "MaxEventlogSize = 1024"

record ChainStreamer =
  Filter :: FilterQuery
  FetchBatchSize :: u64
  BatchOverlap :: u64
  FetchTxDetails :: bool

record chainStreamer =
  cs_filter :: FilterQuery
  cs_c :: chan
  cs_done :: done_chan
  cs_history :: BlockSlice
  cs_next :: u64
  cs_from :: u64
  cs_fetchBatchSize :: u64
  cs_batchOverlap :: u64
  cs_fetchTxDetails :: bool

text \<open>\<open>dial\<close> is the outcome of \<open>ethclient.DialContext\<close>.\<close>

definition makeChainStreamer ::
  "ChainStreamer \<Rightarrow> error option \<Rightarrow> done_chan \<Rightarrow> u64 \<Rightarrow> error + chainStreamer" where
  "makeChainStreamer cr dial dn frm =
     (let bo = (if BatchOverlap cr = 0 then DefaultBatchOverlap else BatchOverlap cr);
          fbs = (if FetchBatchSize cr = 0 then DefaultFetchBatchSize else FetchBatchSize cr)
      in case dial of
           Some e \<Rightarrow> Inl e
         | None \<Rightarrow>
             Inr \<lparr>cs_filter = Filter cr, cs_c = [], cs_done = dn,
                  cs_history = EmptyBlockSlice frm, cs_next = frm, cs_from = frm,
                  cs_fetchBatchSize = fbs, cs_batchOverlap = bo,
                  cs_fetchTxDetails = FetchTxDetails cr\<rparr>)"

text \<open>The query literal built in \<open>fetch\<close>.\<close>

definition fetch_query :: "chainStreamer \<Rightarrow> u64 \<Rightarrow> FilterQuery" where
  "fetch_query cs frm =
     (let batchSize = (if cs_fetchBatchSize cs = 0 then 2000 else cs_fetchBatchSize cs);
          to = frm + batchSize - 1
      in \<lparr>Addresses = Addresses (cs_filter cs), FromBlock = Some (uint frm),
          ToBlock = Some (uint to), FilterTopics = FilterTopics (cs_filter cs)\<rparr>)"

definition fetch :: "chainStreamer \<Rightarrow> LogSource \<Rightarrow> u64 \<Rightarrow> error + BlockSlice" where
  "fetch cs src frm = src (fetch_query cs frm) (cs_fetchTxDetails cs)"

text \<open>The local \<open>from\<close> of one iteration of \<open>run\<close>.\<close>

definition run_from :: "chainStreamer \<Rightarrow> u64" where
  "run_from cs =
     (let frm = cs_next cs - cs_batchOverlap cs
      in if cs_next cs < cs_from cs + cs_batchOverlap cs then cs_from cs else frm)"

definition cs_send :: "chainStreamer \<Rightarrow> Message \<Rightarrow> chainStreamer \<times> error option" where
  "cs_send cs m =
     (case sendOrDone (cs_c cs) (cs_done cs) m of
        ((c, dn), e) \<Rightarrow> (cs\<lparr>cs_c := c, cs_done := dn\<rparr>, e))"

text \<open>
  \<open>process\<close>, first part: the branch taken when \<open>MatchBlocks\<close> reports a mismatch. It
  either returns from \<open>process\<close> or falls through to the emission.
\<close>

datatype flow = Continue | Return "error option"

definition process_reorg :: "chainStreamer \<Rightarrow> BlockSlice \<Rightarrow> u64 \<Rightarrow> chainStreamer \<times> flow" where
  "process_reorg cs b lgb =
     (let lastGoodBlock = (if lgb + 1 < cs_from cs then cs_from cs - 1 else lgb);
          cs1 = cs\<lparr>cs_next := lastGoodBlock + 1\<rparr>
      in case Rollback (cs_history cs1) (cs_next cs1) of
           Inl e \<Rightarrow> (cs1, Return (Some e))
         | Inr h \<Rightarrow>
             (case cs_send (cs1\<lparr>cs_history := h\<rparr>)
                     \<lparr>Action = ActionRollback, MsgNumber = cs_next cs1, MsgBlock = None\<rparr> of
                (cs2, Some e) \<Rightarrow> (cs2, Return (Some e))
              | (cs2, None) \<Rightarrow>
                  if cs_next cs2 < Start b then (cs2, Return None) else (cs2, Continue)))"

fun send_blocks :: "chainStreamer \<Rightarrow> Block list \<Rightarrow> chainStreamer \<times> error option" where
  "send_blocks cs [] = (cs, None)"
| "send_blocks cs (blk # blks) =
     (case cs_send cs \<lparr>Action = ActionAppend, MsgNumber = 0, MsgBlock = Some blk\<rparr> of
        (cs1, Some e) \<Rightarrow> (cs1, Some e)
      | (cs1, None) \<Rightarrow> send_blocks cs1 blks)"

text \<open>\<open>process\<close>, steps 2 to 4: trim the overlap, extend the history, emit.\<close>

definition process_emit :: "chainStreamer \<Rightarrow> BlockSlice \<Rightarrow> chainStreamer \<times> error option" where
  "process_emit cs b0 =
     (let b = DeleteBeforeBlock (cs_next cs) b0
      in case Concat (cs_history cs) b of
           Inl e \<Rightarrow> (cs, Some e)
         | Inr h \<Rightarrow>
             (let h1 = (if End h \<ge> MaxEventlogSize
                        then DeleteBeforeBlock (End h - MaxEventlogSize) h else h)
              in case send_blocks (cs\<lparr>cs_history := h1\<rparr>) (Blocks b) of
                   (cs2, Some e) \<Rightarrow> (cs2, Some e)
                 | (cs2, None) \<Rightarrow>
                     cs_send (cs2\<lparr>cs_next := End b\<rparr>)
                       \<lparr>Action = ActionSetNext, MsgNumber = End b, MsgBlock = None\<rparr>))"

definition process :: "chainStreamer \<Rightarrow> BlockSlice \<Rightarrow> chainStreamer \<times> error option" where
  "process cs b =
     (case MatchBlocks b (cs_history cs) of
        Inl e \<Rightarrow> (cs, Some e)
      | Inr (ok, lastGoodBlock) \<Rightarrow>
          if \<not> ok then
            (case process_reorg cs b lastGoodBlock of
               (cs1, Return r) \<Rightarrow> (cs1, r)
             | (cs1, Continue) \<Rightarrow> process_emit cs1 b)
          else process_emit cs b)"

text \<open>
  \<open>run\<close> loops until an error. Each iteration consumes one answer of the log source;
  when the answers are used up the observation ends with the loop still running
  (\<open>None\<close>), so a returned \<open>Some e\<close> is the error \<open>run\<close> returns.
\<close>

fun run :: "chainStreamer \<Rightarrow> LogSource list \<Rightarrow> chainStreamer \<times> error option" where
  "run cs [] = (cs, None)"
| "run cs (src # srcs) =
     (case fetch cs src (run_from cs) of
        Inl e \<Rightarrow> (cs, Some e)
      | Inr b \<Rightarrow>
          (case process cs b of
             (cs1, Some e) \<Rightarrow> (cs1, Some e)
           | (cs1, None) \<Rightarrow>
               if DistanceFromHead b = 0 then
                 (case waitOrDone (cs_done cs1) of
                    (dn, Some e) \<Rightarrow> (cs1\<lparr>cs_done := dn\<rparr>, Some e)
                  | (dn, None) \<Rightarrow> run (cs1\<lparr>cs_done := dn\<rparr>) srcs)
               else run cs1 srcs))"

definition ChainStreamer_Stream ::
  "ChainStreamer \<Rightarrow> error option \<Rightarrow> LogSource list \<Rightarrow> done_chan \<Rightarrow> u64 \<Rightarrow> error + Subscription" where
  "ChainStreamer_Stream cr dial srcs dn frm =
     (case makeChainStreamer cr dial dn frm of
        Inl e \<Rightarrow> Inl e
      | Inr cs \<Rightarrow>
          (case run cs srcs of
             (cs1, None) \<Rightarrow> Inr \<lparr>C = cs_c cs1, Err = Running\<rparr>
           | (cs1, Some e) \<Rightarrow> Inr \<lparr>C = cs_c cs1, Err = Closed (Some e)\<rparr>))"

section \<open>InMemoryEventLog (events/inmemory.go)\<close>

record InMemoryEventLog =
  log_filter :: FilterQuery
  blockSlice :: BlockSlice

definition NewInMemoryEventLog :: "u64 \<Rightarrow> FilterQuery \<Rightarrow> InMemoryEventLog" where
  "NewInMemoryEventLog frm flt = \<lparr>log_filter = flt, blockSlice = EmptyBlockSlice frm\<rparr>"

definition FirstBlock :: "InMemoryEventLog \<Rightarrow> u64" where
  "FirstBlock l = Start (blockSlice l)"

definition NextBlock :: "InMemoryEventLog \<Rightarrow> u64" where
  "NextBlock l = End (blockSlice l)"

fun stream_blocks :: "chan \<Rightarrow> done_chan \<Rightarrow> Block list \<Rightarrow> (chan \<times> done_chan) \<times> error option" where
  "stream_blocks c dn [] = ((c, dn), None)"
| "stream_blocks c dn (blk # blks) =
     (case sendOrDone c dn \<lparr>Action = ActionAppend, MsgNumber = 0, MsgBlock = Some blk\<rparr> of
        ((c1, dn1), Some e) \<Rightarrow> ((c1, dn1), Some e)
      | ((c1, dn1), None) \<Rightarrow> stream_blocks c1 dn1 blks)"

definition stream :: "InMemoryEventLog \<Rightarrow> chan \<Rightarrow> done_chan \<Rightarrow> u64 \<Rightarrow> (chan \<times> done_chan) \<times> error option" where
  "stream l c dn frm =
     (let b = DeleteBeforeBlock frm (blockSlice l)
      in case stream_blocks c dn (Blocks b) of
           ((c1, dn1), Some e) \<Rightarrow> ((c1, dn1), Some e)
         | ((c1, dn1), None) \<Rightarrow>
             sendOrDone c1 dn1 \<lparr>Action = ActionSetNext, MsgNumber = NextBlock l, MsgBlock = None\<rparr>)"

text \<open>
  \<open>InMemoryEventLog.Stream\<close> makes the channels, starts the goroutine that runs
  \<open>stream\<close>, closes \<open>c\<close> and posts the error, and returns the subscription with a nil
  error. The returned value is \<open>Inr\<close> of what the subscriber observes.
\<close>

definition InMemoryEventLog_Stream :: "InMemoryEventLog \<Rightarrow> done_chan \<Rightarrow> u64 \<Rightarrow> error + Subscription" where
  "InMemoryEventLog_Stream l dn frm =
     (case stream l [] dn frm of ((c, dn1), err) \<Rightarrow> Inr \<lparr>C = c, Err = Closed err\<rparr>)"

text \<open>
  \<open>LiveEventLog.Stream\<close> starts with a check of \<open>from\<close> against the
  event log's \<open>FirstBlock\<close> and returns an error before any channel or goroutine is
  made. Only that synchronous check is described here: \<open>Some e\<close> is the error
  returned, \<open>None\<close> means the call goes on to start its producer.
\<close>

definition LiveEventLog_Stream_check :: "InMemoryEventLog \<Rightarrow> u64 \<Rightarrow> error option" where
  "LiveEventLog_Stream_check eventlog frm =
     (if frm < FirstBlock eventlog then Some ErrFromBelowFirstBlock else None)"

section \<open>Snapshot codec (the \<open>ToProto\<close> and \<open>FromProto\<close> functions of package events)\<close>

subsection \<open>Library functions the codec calls\<close>
















subsection \<open>Wire messages (proto/events.proto)\<close>






subsection \<open>Encoding and decoding\<close>
















subsection \<open>Validity of an event log file\<close>









text \<open>The property of C5 on a channel: every Rollback delivered is at or above \<open>frm\<close>.\<close>

definition rollbacks_from :: "u64 \<Rightarrow> chan \<Rightarrow> bool" where
  "rollbacks_from frm c = (\<forall>m \<in> set c. Action m = ActionRollback \<longrightarrow> frm \<le> MsgNumber m)"

section \<open>BlockSlice: lemmas\<close>

lemma increasing_filter_below:
  "increasing bs \<Longrightarrow>
   rev (dropWhile (\<lambda>blk. \<not> Number blk < n) (rev bs)) = filter (\<lambda>blk. Number blk < n) bs"
proof (induction bs rule: rev_induct)
  case Nil
  then show ?case by simp
next
  case (snoc x xs)
  have inc: "increasing xs" and below: "\<forall>y\<in>set xs. Number y < Number x"
    using snoc.prems by (auto simp: increasing_def sorted_wrt_append)
  show ?case
  proof (cases "Number x < n")
    case True
    then have "\<forall>y\<in>set xs. Number y < n" using below by auto
    then show ?thesis using True by simp
  next
    case False
    then show ?thesis using snoc.IH [OF inc] by simp
  qed
qed

lemma increasing_filter_from:
  "increasing bs \<Longrightarrow>
   dropWhile (\<lambda>blk. \<not> Number blk \<ge> n) bs = filter (\<lambda>blk. n \<le> Number blk) bs"
proof (induction bs)
  case Nil
  then show ?case by simp
next
  case (Cons x xs)
  have inc: "increasing xs" and above: "\<forall>y\<in>set xs. Number x < Number y"
    using Cons.prems by (auto simp: increasing_def)
  show ?case
  proof (cases "n \<le> Number x")
    case True
    then have "\<forall>y\<in>set xs. n \<le> Number y" using above by auto
    then show ?thesis using True by simp
  next
    case False
    then show ?thesis using Cons.IH [OF inc] by simp
  qed
qed



lemma all_below_dropWhile_rev:
  "list_all (\<lambda>blk. Number blk < n) bs \<Longrightarrow>
   rev (dropWhile (\<lambda>blk. \<not> Number blk < n) (rev bs)) = bs"
  by (cases bs rule: rev_cases) (auto simp: list_all_iff)

lemma wrap_sub:
  fixes d x :: u64
  shows "int (unat (d - x)) =
           (if unat x \<le> unat d then int (unat d) - int (unat x)
            else 2 ^ 64 + int (unat d) - int (unat x))"
proof -
  have "unat x < 2 ^ 64" using unsigned_less [of x] by simp
  then show ?thesis
    by (simp add: unat_sub_if_size word_size of_nat_diff)
qed


section \<open>Claims about BlockSlice\<close>

text \<open>
  C1 (as amended). For every BlockSlice whose blocks are increasing in number and every
  \<open>n\<close> with \<open>Start \<le> n \<le> End\<close>, \<open>Rollback n\<close> succeeds, keeps exactly the blocks
  with \<open>Number < n\<close> (drops exactly those with \<open>Number \<ge> n\<close>), leaves \<open>Start\<close>, sets
  \<open>End\<close> to \<open>n\<close>, and subtracts \<open>old End - n\<close> from \<open>DistanceFromHead\<close> in unsigned
  64-bit arithmetic: the plain difference when \<open>DistanceFromHead \<ge> old End - n\<close>, and
  \<open>2^64\<close> more than the (negative) difference otherwise. It does not saturate at zero.
\<close>

theorem Rollback_drops_from_n_and_wraps:
  assumes "increasing (Blocks b)" and "Start b \<le> n" and "n \<le> End b"
  shows "Rollback b n =
           Inr \<lparr>Start = Start b, End = n,
                DistanceFromHead = DistanceFromHead b - (End b - n),
                Blocks = filter (\<lambda>blk. Number blk < n) (Blocks b)\<rparr>
         \<and> int (unat (DistanceFromHead b - (End b - n))) =
             (if unat (End b) - unat n \<le> unat (DistanceFromHead b)
              then int (unat (DistanceFromHead b)) - (int (unat (End b)) - int (unat n))
              else 2 ^ 64 + int (unat (DistanceFromHead b)) - (int (unat (End b)) - int (unat n)))"
proof
  have ok: "\<not> n > End b" "\<not> n < Start b"
    using assms(2,3) by (simp_all add: not_less)
  show "Rollback b n =
           Inr \<lparr>Start = Start b, End = n,
                DistanceFromHead = DistanceFromHead b - (End b - n),
                Blocks = filter (\<lambda>blk. Number blk < n) (Blocks b)\<rparr>"
    using ok increasing_filter_below [OF assms(1), of n]
    by (simp add: Rollback_def DeleteFromBlock_def)
next
  have d: "unat (End b - n) = unat (End b) - unat n"
    using assms(3) by (simp add: unat_sub)
  have le: "unat n \<le> unat (End b)"
    using assms(3) by (simp add: word_le_nat_alt)
  show "int (unat (DistanceFromHead b - (End b - n))) =
             (if unat (End b) - unat n \<le> unat (DistanceFromHead b)
              then int (unat (DistanceFromHead b)) - (int (unat (End b)) - int (unat n))
              else 2 ^ 64 + int (unat (DistanceFromHead b)) - (int (unat (End b)) - int (unat n)))"
    using wrap_sub [of "DistanceFromHead b" "End b - n"] le
    by (simp add: d)
qed

theorem Rollback_drops_from_n_and_wraps_witness:
  "Rollback \<lparr>Start = 1, End = 10, DistanceFromHead = 2,
             Blocks = [\<lparr>Number = 3, Hash = [], Events = []\<rparr>,
                       \<lparr>Number = 7, Hash = [], Events = []\<rparr>]\<rparr> 5 =
     Inr \<lparr>Start = 1, End = 5, DistanceFromHead = 18446744073709551613,
          Blocks = [\<lparr>Number = 3, Hash = [], Events = []\<rparr>]\<rparr>"
  using Rollback_drops_from_n_and_wraps
          [of "\<lparr>Start = 1, End = 10, DistanceFromHead = 2,
                Blocks = [\<lparr>Number = 3, Hash = [], Events = []\<rparr>,
                          \<lparr>Number = 7, Hash = [], Events = []\<rparr>]\<rparr>" 5]
  by (simp add: increasing_def)

text \<open>
  C1 as stated fails: with \<open>DistanceFromHead = 0\<close>, \<open>End = 10\<close> and \<open>n = 5\<close> the
  saturating difference would be 0, and the code leaves \<open>2^64 - 5\<close>.
\<close>

theorem Rollback_saturation_counterexample:
  "Rollback \<lparr>Start = 0, End = 10, DistanceFromHead = 0, Blocks = []\<rparr> 5 =
     Inr \<lparr>Start = 0, End = 5, DistanceFromHead = 18446744073709551611, Blocks = []\<rparr>
   \<and> (18446744073709551611 :: u64) \<noteq> 0"
  by (simp add: Rollback_def DeleteFromBlock_def)


text \<open>
  C4 (as amended). For every BlockSlice and every \<open>n\<close>, \<open>DeleteBeforeBlock n\<close> sets
  \<open>Start\<close> to \<open>n\<close>; the new \<open>Start\<close> is at or above the previous one exactly when
  \<open>n\<close> is.
\<close>

theorem DeleteBeforeBlock_sets_Start:
  "Start (DeleteBeforeBlock n b) = n \<and>
   (Start b \<le> Start (DeleteBeforeBlock n b)) = (Start b \<le> n)"
  by (simp add: DeleteBeforeBlock_def)

text \<open>
  C4 as stated fails: on a slice that starts at 5, \<open>DeleteBeforeBlock 3\<close> leaves
  \<open>Start = 3\<close>.
\<close>

theorem DeleteBeforeBlock_decreases_Start_counterexample:
  "\<not> Start \<lparr>Start = 5, End = 9, DistanceFromHead = 0, Blocks = []\<rparr>
       \<le> Start (DeleteBeforeBlock 3 \<lparr>Start = 5, End = 9, DistanceFromHead = 0, Blocks = []\<rparr>)"
  by (simp add: DeleteBeforeBlock_def)




lemma stream_blocks_eq:
  "stream_blocks c dn blks =
     (let ms = map (\<lambda>blk. \<lparr>Action = ActionAppend, MsgNumber = 0, MsgBlock = Some blk\<rparr>) blks
      in case dn of
           None \<Rightarrow> ((c @ ms, None), None)
         | Some k \<Rightarrow>
             if length ms \<le> k then ((c @ ms, Some (k - length ms)), None)
             else ((c @ take k ms, Some 0), Some Canceled))"
proof (induction blks arbitrary: c dn)
  case Nil
  then show ?case by (simp split: option.splits)
next
  case (Cons blk blks)
  show ?case
  proof (cases dn)
    case None
    then show ?thesis by (simp add: sendOrDone_def Cons.IH Let_def)
  next
    case (Some k)
    then show ?thesis
      by (cases k) (simp_all add: sendOrDone_def Cons.IH Let_def)
  qed
qed

lemma stream_eq:
  "stream l c dn frm =
     (let full = map (\<lambda>blk. \<lparr>Action = ActionAppend, MsgNumber = 0, MsgBlock = Some blk\<rparr>)
                   (Blocks (DeleteBeforeBlock frm (blockSlice l)))
                 @ [\<lparr>Action = ActionSetNext, MsgNumber = NextBlock l, MsgBlock = None\<rparr>]
      in case dn of
           None \<Rightarrow> ((c @ full, None), None)
         | Some k \<Rightarrow>
             if length full \<le> k then ((c @ full, Some (k - length full)), None)
             else ((c @ take k full, Some 0), Some Canceled))"
proof (cases dn)
  case None
  then show ?thesis by (simp add: stream_def stream_blocks_eq sendOrDone_def Let_def)
next
  case (Some k)
  show ?thesis
  proof (cases "length (Blocks (DeleteBeforeBlock frm (blockSlice l))) \<le> k")
    case True
    then show ?thesis using Some
      by (cases "k - length (Blocks (DeleteBeforeBlock frm (blockSlice l)))")
         (auto simp add: stream_def stream_blocks_eq sendOrDone_def Let_def)
  next
    case False
    then show ?thesis using Some
      by (simp add: stream_def stream_blocks_eq sendOrDone_def Let_def)
  qed
qed

section \<open>Claims about the in-memory replay\<close>

text \<open>
  C8. For every in-memory event log whose blocks are increasing in number and every
  \<open>from \<ge> FirstBlock\<close>, the replay subscription delivers one Append per stored block
  with \<open>Number \<ge> from\<close>, in the stored (increasing) order, then one SetNext carrying
  \<open>NextBlock\<close>, and posts a nil error; when \<open>done\<close> is observed after \<open>k\<close> sends it
  delivers the first \<open>k\<close> of these messages and posts \<open>Canceled\<close>. No message is a
  Rollback.
\<close>

theorem replay_emits_stored_blocks:
  assumes "increasing (Blocks (blockSlice l))" and "FirstBlock l \<le> frm"
  shows "InMemoryEventLog_Stream l dn frm =
           (let full = map (\<lambda>blk. \<lparr>Action = ActionAppend, MsgNumber = 0, MsgBlock = Some blk\<rparr>)
                         (filter (\<lambda>blk. frm \<le> Number blk) (Blocks (blockSlice l)))
                       @ [\<lparr>Action = ActionSetNext, MsgNumber = NextBlock l, MsgBlock = None\<rparr>]
            in case dn of
                 None \<Rightarrow> Inr \<lparr>C = full, Err = Closed None\<rparr>
               | Some k \<Rightarrow>
                   if length full \<le> k then Inr \<lparr>C = full, Err = Closed None\<rparr>
                   else Inr \<lparr>C = take k full, Err = Closed (Some Canceled)\<rparr>)
         \<and> increasing (filter (\<lambda>blk. frm \<le> Number blk) (Blocks (blockSlice l)))
         \<and> (\<forall>sub. InMemoryEventLog_Stream l dn frm = Inr sub \<longrightarrow>
               (\<forall>m \<in> set (C sub). Action m \<noteq> ActionRollback))"
proof -
  define full where
    "full = map (\<lambda>blk. \<lparr>Action = ActionAppend, MsgNumber = 0, MsgBlock = Some blk\<rparr>)
                         (filter (\<lambda>blk. frm \<le> Number blk) (Blocks (blockSlice l)))
                       @ [\<lparr>Action = ActionSetNext, MsgNumber = NextBlock l, MsgBlock = None\<rparr>]"
  have blocks: "Blocks (DeleteBeforeBlock frm (blockSlice l)) =
                  filter (\<lambda>blk. frm \<le> Number blk) (Blocks (blockSlice l))"
    using increasing_filter_from [OF assms(1), of frm] by (simp add: DeleteBeforeBlock_def)
  have st: "stream l [] dn frm =
              (case dn of
                 None \<Rightarrow> ((full, None), None)
               | Some k \<Rightarrow>
                   if length full \<le> k then ((full, Some (k - length full)), None)
                   else ((take k full, Some 0), Some Canceled))"
    unfolding full_def stream_eq blocks Let_def by (cases dn) simp_all
  have a: "InMemoryEventLog_Stream l dn frm =
           (case dn of
                 None \<Rightarrow> Inr \<lparr>C = full, Err = Closed None\<rparr>
               | Some k \<Rightarrow>
                   if length full \<le> k then Inr \<lparr>C = full, Err = Closed None\<rparr>
                   else Inr \<lparr>C = take k full, Err = Closed (Some Canceled)\<rparr>)"
    unfolding InMemoryEventLog_Stream_def st by (cases dn) simp_all
  have b: "increasing (filter (\<lambda>blk. frm \<le> Number blk) (Blocks (blockSlice l)))"
    using assms(1) by (simp add: increasing_def sorted_wrt_filter)
  have nr: "\<forall>m \<in> set full. Action m \<noteq> ActionRollback"
    unfolding full_def by auto
  have c: "\<forall>sub. InMemoryEventLog_Stream l dn frm = Inr sub \<longrightarrow>
               (\<forall>m \<in> set (C sub). Action m \<noteq> ActionRollback)"
  proof (intro allI impI)
    fix sub assume s: "InMemoryEventLog_Stream l dn frm = Inr sub"
    have "C sub = full \<or> (\<exists>k. C sub = take k full)"
      using s unfolding a by (cases dn) (auto split: if_splits)
    then have "set (C sub) \<subseteq> set full"
      using set_take_subset by fastforce
    then show "\<forall>m \<in> set (C sub). Action m \<noteq> ActionRollback" using nr by blast
  qed
  show ?thesis using a b c unfolding full_def Let_def by blast
qed


theorem replay_emits_stored_blocks_witness:
  "InMemoryEventLog_Stream
     \<lparr>log_filter = \<lparr>Addresses = [], FromBlock = None, ToBlock = None, FilterTopics = []\<rparr>,
      blockSlice = \<lparr>Start = 5, End = 12, DistanceFromHead = 0,
                    Blocks = [\<lparr>Number = 6, Hash = [], Events = []\<rparr>,
                              \<lparr>Number = 9, Hash = [], Events = []\<rparr>]\<rparr>\<rparr> None 8 =
   Inr \<lparr>C = [\<lparr>Action = ActionAppend, MsgNumber = 0,
               MsgBlock = Some \<lparr>Number = 9, Hash = [], Events = []\<rparr>\<rparr>,
              \<lparr>Action = ActionSetNext, MsgNumber = 12, MsgBlock = None\<rparr>],
        Err = Closed None\<rparr>"
  using replay_emits_stored_blocks
          [of "\<lparr>log_filter = \<lparr>Addresses = [], FromBlock = None, ToBlock = None, FilterTopics = []\<rparr>,
                blockSlice = \<lparr>Start = 5, End = 12, DistanceFromHead = 0,
                    Blocks = [\<lparr>Number = 6, Hash = [], Events = []\<rparr>,
                              \<lparr>Number = 9, Hash = [], Events = []\<rparr>]\<rparr>\<rparr>" 8 None]
  by (simp add: increasing_def FirstBlock_def NextBlock_def)

lemma match_loop_panic_iff:
  "i \<le> length newBlocks \<Longrightarrow>
   (match_loop i oBlocks newBlocks lgb = Inl PanicIndexOutOfRange) =
     (length newBlocks < length oBlocks \<and>
      (\<forall>j. i \<le> j \<and> j < length newBlocks \<longrightarrow> Hash (oBlocks ! j) = Hash (newBlocks ! j)))"
proof (induction i oBlocks newBlocks lgb rule: match_loop.induct)
  case (1 i oBlocks newBlocks lastGoodBlock)
  show ?case
  proof (cases "i < length oBlocks")
    case False
    then show ?thesis using "1.prems" by (subst match_loop.simps) auto
  next
    case inO: True
    show ?thesis
    proof (cases "i < length newBlocks")
      case False
      then show ?thesis using inO "1.prems" by (subst match_loop.simps) auto
    next
      case inN: True
      show ?thesis
      proof (cases "Hash (oBlocks ! i) \<noteq> Hash (newBlocks ! i)")
        case True
        then show ?thesis using inO inN
          by (subst match_loop.simps) auto
      next
        case False
        have step: "match_loop i oBlocks newBlocks lastGoodBlock =
                    match_loop (i + 1) oBlocks newBlocks (Number (newBlocks ! i))"
          using inO inN False by (subst match_loop.simps) simp
        have ih: "(match_loop (i + 1) oBlocks newBlocks (Number (newBlocks ! i)) = Inl PanicIndexOutOfRange) =
           (length newBlocks < length oBlocks \<and>
            (\<forall>j. i + 1 \<le> j \<and> j < length newBlocks \<longrightarrow> Hash (oBlocks ! j) = Hash (newBlocks ! j)))"
          using "1.IH" [OF inO inN] False inN by simp
        have "(\<forall>j. i \<le> j \<and> j < length newBlocks \<longrightarrow> Hash (oBlocks ! j) = Hash (newBlocks ! j)) =
              (\<forall>j. i + 1 \<le> j \<and> j < length newBlocks \<longrightarrow> Hash (oBlocks ! j) = Hash (newBlocks ! j))"
          using False by (metis Suc_eq_plus1 Suc_leI le_eq_less_or_eq le_add1 le_trans)
        then show ?thesis using step ih by simp
      qed
    qed
  qed
qed

lemma match_loop_total:
  "length oBlocks \<le> length newBlocks \<Longrightarrow> \<exists>r. match_loop i oBlocks newBlocks lgb = Inr r"
proof (induction i oBlocks newBlocks lgb rule: match_loop.induct)
  case (1 i oBlocks newBlocks lastGoodBlock)
  show ?case
  proof (cases "i < length oBlocks")
    case False
    then show ?thesis by (subst match_loop.simps) auto
  next
    case True
    then have inN: "i < length newBlocks" using "1.prems" by simp
    show ?thesis
    proof (cases "Hash (oBlocks ! i) \<noteq> Hash (newBlocks ! i)")
      case True
      then show ?thesis using \<open>i < length oBlocks\<close> inN by (subst match_loop.simps) auto
    next
      case False
      then show ?thesis
        using "1.IH" [OF \<open>i < length oBlocks\<close> inN] "1.prems" \<open>i < length oBlocks\<close> inN
        by (subst match_loop.simps) auto
    qed
  qed
qed

section \<open>Claims about reconciliation\<close>

text \<open>
  C10. \<open>MatchBlocks\<close> reads \<open>new.Blocks[i]\<close> at every index \<open>i\<close> of the history's block
  list restricted to the overlap, with no bounds check. When the new slice has at least
  as many blocks as the restricted history (and does not end before it) the call
  returns a result; it panics with an index out of range exactly when the new slice
  does not end before the history, has fewer blocks than the restricted history, and
  all of its blocks match the history's hashes position by position; such inputs exist
  (a history with one block in the overlap and an empty new fetch).
\<close>

theorem MatchBlocks_unchecked_index:
  "(End old \<le> End new \<and>
      length (Blocks (DeleteBeforeBlock (Start new) old)) \<le> length (Blocks new)
      \<longrightarrow> (\<exists>r. MatchBlocks new old = Inr r))
   \<and> (MatchBlocks new old = Inl PanicIndexOutOfRange) =
       (End old \<le> End new \<and>
        length (Blocks new) < length (Blocks (DeleteBeforeBlock (Start new) old)) \<and>
        (\<forall>j. j < length (Blocks new) \<longrightarrow>
           Hash (Blocks (DeleteBeforeBlock (Start new) old) ! j) = Hash (Blocks new ! j)))
   \<and> MatchBlocks \<lparr>Start = 100, End = 120, DistanceFromHead = 0, Blocks = []\<rparr>
                 \<lparr>Start = 90, End = 110, DistanceFromHead = 0,
                  Blocks = [\<lparr>Number = 105, Hash = [1], Events = []\<rparr>]\<rparr>
       = Inl PanicIndexOutOfRange"
proof (intro conjI impI)
  assume a: "End old \<le> End new \<and>
      length (Blocks (DeleteBeforeBlock (Start new) old)) \<le> length (Blocks new)"
  then show "\<exists>r. MatchBlocks new old = Inr r"
    using match_loop_total [of "Blocks (DeleteBeforeBlock (Start new) old)" "Blocks new" 0 0]
    by (simp add: MatchBlocks_def not_less)
next
  show "(MatchBlocks new old = Inl PanicIndexOutOfRange) =
       (End old \<le> End new \<and>
        length (Blocks new) < length (Blocks (DeleteBeforeBlock (Start new) old)) \<and>
        (\<forall>j. j < length (Blocks new) \<longrightarrow>
           Hash (Blocks (DeleteBeforeBlock (Start new) old) ! j) = Hash (Blocks new ! j)))"
    using match_loop_panic_iff [of 0 "Blocks new" "Blocks (DeleteBeforeBlock (Start new) old)" 0]
    by (auto simp add: MatchBlocks_def not_less)
next
  show "MatchBlocks \<lparr>Start = 100, End = 120, DistanceFromHead = 0, Blocks = []\<rparr>
                 \<lparr>Start = 90, End = 110, DistanceFromHead = 0,
                  Blocks = [\<lparr>Number = 105, Hash = [1], Events = []\<rparr>]\<rparr>
       = Inl PanicIndexOutOfRange"
    by (simp add: MatchBlocks_def DeleteBeforeBlock_def match_loop.simps)
qed

theorem MatchBlocks_unchecked_index_witness:
  "(\<exists>r. MatchBlocks
      \<lparr>Start = 100, End = 120, DistanceFromHead = 0,
        Blocks = [\<lparr>Number = 105, Hash = [1], Events = []\<rparr>,
                  \<lparr>Number = 112, Hash = [2], Events = []\<rparr>]\<rparr>
      \<lparr>Start = 90, End = 110, DistanceFromHead = 0,
        Blocks = [\<lparr>Number = 95, Hash = [0], Events = []\<rparr>,
                  \<lparr>Number = 105, Hash = [1], Events = []\<rparr>]\<rparr> = Inr r)"
  using MatchBlocks_unchecked_index
     [of "\<lparr>Start = 90, End = 110, DistanceFromHead = 0,
        Blocks = [\<lparr>Number = 95, Hash = [0], Events = []\<rparr>,
                  \<lparr>Number = 105, Hash = [1], Events = []\<rparr>]\<rparr>"
         "\<lparr>Start = 100, End = 120, DistanceFromHead = 0,
        Blocks = [\<lparr>Number = 105, Hash = [1], Events = []\<rparr>,
                  \<lparr>Number = 112, Hash = [2], Events = []\<rparr>]\<rparr>"]
  by (simp add: DeleteBeforeBlock_def)

lemma match_loop_error:
  "match_loop i oBlocks newBlocks lgb = Inl e \<Longrightarrow> e = PanicIndexOutOfRange"
proof (induction i oBlocks newBlocks lgb rule: match_loop.induct)
  case (1 i oBlocks newBlocks lastGoodBlock)
  from "1.prems" show ?case
    by (subst (asm) match_loop.simps) (auto split: if_splits dest: "1.IH")
qed

text \<open>
  C9. When the new slice ends before the history, \<open>MatchBlocks\<close> returns an error,
  \<open>process\<close> returns it with the streamer unchanged (no Rollback, Append or SetNext
  is sent for the batch) and \<open>run\<close> returns it, which ends the subscription. When
  the new slice ends at or after the history's end, \<open>MatchBlocks\<close> goes on to the
  hash comparison and never returns that error.
\<close>

theorem short_fetch_terminates_subscription:
  "(End new < End (cs_history cs) \<longrightarrow>
      MatchBlocks new (cs_history cs) = Inl ErrNewEndsBeforeOld
      \<and> process cs new = (cs, Some ErrNewEndsBeforeOld)
      \<and> (\<forall>src srcs. fetch cs src (run_from cs) = Inr new \<longrightarrow>
             run cs (src # srcs) = (cs, Some ErrNewEndsBeforeOld)))
   \<and> (End (cs_history cs) \<le> End new \<longrightarrow>
        MatchBlocks new (cs_history cs) =
          match_loop 0 (Blocks (DeleteBeforeBlock (Start new) (cs_history cs))) (Blocks new) 0
        \<and> MatchBlocks new (cs_history cs) \<noteq> Inl ErrNewEndsBeforeOld)"
proof (intro conjI impI allI)
  assume a: "End new < End (cs_history cs)"
  show m: "MatchBlocks new (cs_history cs) = Inl ErrNewEndsBeforeOld"
    using a by (simp add: MatchBlocks_def)
  show p: "process cs new = (cs, Some ErrNewEndsBeforeOld)"
    by (simp add: process_def m)
  fix src srcs assume "fetch cs src (run_from cs) = Inr new"
  then show "run cs (src # srcs) = (cs, Some ErrNewEndsBeforeOld)"
    by (simp add: p)
next
  assume b: "End (cs_history cs) \<le> End new"
  show c: "MatchBlocks new (cs_history cs) =
          match_loop 0 (Blocks (DeleteBeforeBlock (Start new) (cs_history cs))) (Blocks new) 0"
    using leD [OF b] by (simp add: MatchBlocks_def)
  show "MatchBlocks new (cs_history cs) \<noteq> Inl ErrNewEndsBeforeOld"
    unfolding c using match_loop_error by fastforce
qed

theorem short_fetch_terminates_subscription_witness:
  "run \<lparr>cs_filter = \<lparr>Addresses = [], FromBlock = None, ToBlock = None, FilterTopics = []\<rparr>,
        cs_c = [], cs_done = None,
        cs_history = \<lparr>Start = 100, End = 2100, DistanceFromHead = 0, Blocks = []\<rparr>,
        cs_next = 2100, cs_from = 100, cs_fetchBatchSize = 2000, cs_batchOverlap = 10,
        cs_fetchTxDetails = False\<rparr>
       [\<lambda>q t. Inr \<lparr>Start = 2090, End = 2095, DistanceFromHead = 0, Blocks = []\<rparr>] =
     (\<lparr>cs_filter = \<lparr>Addresses = [], FromBlock = None, ToBlock = None, FilterTopics = []\<rparr>,
        cs_c = [], cs_done = None,
        cs_history = \<lparr>Start = 100, End = 2100, DistanceFromHead = 0, Blocks = []\<rparr>,
        cs_next = 2100, cs_from = 100, cs_fetchBatchSize = 2000, cs_batchOverlap = 10,
        cs_fetchTxDetails = False\<rparr>, Some ErrNewEndsBeforeOld)
   \<and> MatchBlocks \<lparr>Start = 2090, End = 2100, DistanceFromHead = 0, Blocks = []\<rparr>
                 \<lparr>Start = 100, End = 2100, DistanceFromHead = 0, Blocks = []\<rparr> = Inr (True, 0)"
proof -
  let ?cs = "\<lparr>cs_filter = \<lparr>Addresses = [], FromBlock = None, ToBlock = None, FilterTopics = []\<rparr>,
        cs_c = [], cs_done = None,
        cs_history = \<lparr>Start = 100, End = 2100, DistanceFromHead = 0, Blocks = []\<rparr>,
        cs_next = 2100, cs_from = 100, cs_fetchBatchSize = 2000, cs_batchOverlap = 10,
        cs_fetchTxDetails = False\<rparr>"
  let ?short = "\<lparr>Start = 2090, End = 2095, DistanceFromHead = 0, Blocks = []\<rparr>"
  let ?long = "\<lparr>Start = 2090, End = 2100, DistanceFromHead = 0, Blocks = []\<rparr>"
  have lt: "End ?short < End (cs_history ?cs)" by simp
  have le: "End (cs_history ?cs) \<le> End ?long" by simp
  have f: "fetch ?cs (\<lambda>q t. Inr ?short) (run_from ?cs) = Inr ?short"
    by (simp add: fetch_def)
  have a: "run ?cs [\<lambda>q t. Inr ?short] = (?cs, Some ErrNewEndsBeforeOld)"
    using short_fetch_terminates_subscription [of ?short ?cs] lt f by blast
  have "MatchBlocks ?long (cs_history ?cs) =
          match_loop 0 (Blocks (DeleteBeforeBlock (Start ?long) (cs_history ?cs))) (Blocks ?long) 0"
    using short_fetch_terminates_subscription [of ?long ?cs] le by blast
  then have b: "MatchBlocks ?long \<lparr>Start = 100, End = 2100, DistanceFromHead = 0, Blocks = []\<rparr> = Inr (True, 0)"
    by (simp add: DeleteBeforeBlock_def match_loop.simps)
  show ?thesis using a b by simp
qed

section \<open>Claims about subscribing below the first block\<close>

text \<open>
  C3. The claim asks \<open>Stream\<close> to fail synchronously when \<open>from < FirstBlock\<close>.
  \<open>InMemoryEventLog.Stream\<close> has no such check: on a log that starts at block 5,
  \<open>Stream\<close> from 3 returns a subscription and a nil error, and its producer
  delivers the stored block and a SetNext. The check of \<open>LiveEventLog.Stream\<close>
  rejects the same call.
\<close>

theorem InMemoryEventLog_Stream_below_FirstBlock:
  "InMemoryEventLog_Stream
     \<lparr>log_filter = \<lparr>Addresses = [], FromBlock = None, ToBlock = None, FilterTopics = []\<rparr>,
      blockSlice = \<lparr>Start = 5, End = 9, DistanceFromHead = 0,
                    Blocks = [\<lparr>Number = 7, Hash = [], Events = []\<rparr>]\<rparr>\<rparr> None 3 =
     Inr \<lparr>C = [\<lparr>Action = ActionAppend, MsgNumber = 0,
                 MsgBlock = Some \<lparr>Number = 7, Hash = [], Events = []\<rparr>\<rparr>,
                \<lparr>Action = ActionSetNext, MsgNumber = 9, MsgBlock = None\<rparr>],
          Err = Closed None\<rparr>
   \<and> LiveEventLog_Stream_check
       \<lparr>log_filter = \<lparr>Addresses = [], FromBlock = None, ToBlock = None, FilterTopics = []\<rparr>,
        blockSlice = \<lparr>Start = 5, End = 9, DistanceFromHead = 0,
                    Blocks = [\<lparr>Number = 7, Hash = [], Events = []\<rparr>]\<rparr>\<rparr> 3
       = Some ErrFromBelowFirstBlock"
  by (simp add: InMemoryEventLog_Stream_def stream_def DeleteBeforeBlock_def sendOrDone_def
        NextBlock_def FirstBlock_def LiveEventLog_Stream_check_def)

lemma InMemoryEventLog_Stream_never_fails:
  "\<exists>sub. InMemoryEventLog_Stream l dn frm = Inr sub"
  by (simp add: InMemoryEventLog_Stream_def split: prod.splits)

lemma rollbacks_from_snoc:
  "rollbacks_from frm (c @ [m]) =
     (rollbacks_from frm c \<and> (Action m = ActionRollback \<longrightarrow> frm \<le> MsgNumber m))"
  by (auto simp: rollbacks_from_def)

lemma cs_send_cases:
  assumes "cs_send cs m = (cs', e)"
  shows "cs_from cs' = cs_from cs \<and> (cs_c cs' = cs_c cs \<or> cs_c cs' = cs_c cs @ [m])"
  using assms
  by (cases "cs_done cs"; cases "the (cs_done cs)")
     (auto simp: cs_send_def sendOrDone_def)

lemma cs_send_ok:
  assumes "cs_send cs m = (cs', e)" and "rollbacks_from (cs_from cs) (cs_c cs)"
    and "Action m = ActionRollback \<longrightarrow> cs_from cs \<le> MsgNumber m"
  shows "cs_from cs' = cs_from cs \<and> rollbacks_from (cs_from cs) (cs_c cs')"
  using cs_send_cases [OF assms(1)] assms(2,3)
  by (auto simp: rollbacks_from_snoc)

lemma send_blocks_ok:
  "send_blocks cs blks = (cs', e) \<Longrightarrow> rollbacks_from (cs_from cs) (cs_c cs) \<Longrightarrow>
   cs_from cs' = cs_from cs \<and> rollbacks_from (cs_from cs) (cs_c cs')"
proof (induction blks arbitrary: cs)
  case Nil
  then show ?case by simp
next
  case (Cons blk blks)
  obtain cs1 e1 where s: "cs_send cs \<lparr>Action = ActionAppend, MsgNumber = 0, MsgBlock = Some blk\<rparr> = (cs1, e1)"
    by (cases "cs_send cs \<lparr>Action = ActionAppend, MsgNumber = 0, MsgBlock = Some blk\<rparr>")
  have ok1: "cs_from cs1 = cs_from cs \<and> rollbacks_from (cs_from cs) (cs_c cs1)"
    using cs_send_ok [OF s Cons.prems(2)] by simp
  show ?case
  proof (cases e1)
    case None
    then have "send_blocks cs1 blks = (cs', e)" using Cons.prems(1) s by simp
    then show ?thesis using Cons.IH [of cs1] ok1 by simp
  next
    case (Some a)
    then have "cs' = cs1" using Cons.prems(1) s by simp
    then show ?thesis using ok1 by simp
  qed
qed

lemma rollback_point:
  fixes L frm :: u64
  shows "(if L + 1 < frm then frm - 1 else L) + 1 = max (L + 1) frm"
  by (auto simp: max_def)

lemma process_reorg_message:
  assumes "process_reorg cs b L = (cs', fl)"
  shows "cs_from cs' = cs_from cs \<and>
         (cs_c cs' = cs_c cs \<or>
          cs_c cs' = cs_c cs @ [\<lparr>Action = ActionRollback, MsgNumber = max (L + 1) (cs_from cs),
                                  MsgBlock = None\<rparr>])"
proof -
  let ?cs1 = "cs\<lparr>cs_next := max (L + 1) (cs_from cs)\<rparr>"
  show ?thesis
  proof (cases "Rollback (cs_history ?cs1) (cs_next ?cs1)")
    case (Inl e)
    then show ?thesis using assms
      by (auto simp add: process_reorg_def Let_def rollback_point)
  next
    case (Inr h)
    obtain cs2 e2 where s: "cs_send (?cs1\<lparr>cs_history := h\<rparr>)
        \<lparr>Action = ActionRollback, MsgNumber = cs_next ?cs1, MsgBlock = None\<rparr> = (cs2, e2)"
      by (cases "cs_send (?cs1\<lparr>cs_history := h\<rparr>)
        \<lparr>Action = ActionRollback, MsgNumber = cs_next ?cs1, MsgBlock = None\<rparr>")
    have "cs' = cs2" using assms Inr s
      by (cases e2) (auto simp add: process_reorg_def Let_def rollback_point split: if_splits)
    then show ?thesis using cs_send_cases [OF s] by simp
  qed
qed

lemma process_reorg_ok:
  assumes "process_reorg cs b L = (cs', fl)" and "rollbacks_from (cs_from cs) (cs_c cs)"
  shows "cs_from cs' = cs_from cs \<and> rollbacks_from (cs_from cs) (cs_c cs')"
  using process_reorg_message [OF assms(1)] assms(2)
  by (auto simp: rollbacks_from_snoc)

lemma process_emit_ok:
  assumes "process_emit cs b = (cs', e)" and "rollbacks_from (cs_from cs) (cs_c cs)"
  shows "cs_from cs' = cs_from cs \<and> rollbacks_from (cs_from cs) (cs_c cs')"
proof (cases "Concat (cs_history cs) (DeleteBeforeBlock (cs_next cs) b)")
  case (Inl x)
  then show ?thesis using assms by (simp add: process_emit_def Let_def)
next
  case (Inr h)
  define h1 where "h1 = (if End h \<ge> MaxEventlogSize
                        then DeleteBeforeBlock (End h - MaxEventlogSize) h else h)"
  obtain cs2 e2 where sb: "send_blocks (cs\<lparr>cs_history := h1\<rparr>)
        (Blocks (DeleteBeforeBlock (cs_next cs) b)) = (cs2, e2)"
    by (cases "send_blocks (cs\<lparr>cs_history := h1\<rparr>) (Blocks (DeleteBeforeBlock (cs_next cs) b))")
  have ok2: "cs_from cs2 = cs_from cs \<and> rollbacks_from (cs_from cs) (cs_c cs2)"
    using send_blocks_ok [OF sb] assms(2) by simp
  show ?thesis
  proof (cases e2)
    case (Some a)
    then have "cs' = cs2" using assms(1) Inr sb
      by (simp add: process_emit_def Let_def h1_def)
    then show ?thesis using ok2 by simp
  next
    case None
    then have "cs_send (cs2\<lparr>cs_next := End (DeleteBeforeBlock (cs_next cs) b)\<rparr>)
                 \<lparr>Action = ActionSetNext, MsgNumber = End (DeleteBeforeBlock (cs_next cs) b),
                  MsgBlock = None\<rparr> = (cs', e)"
      using assms(1) Inr sb by (simp add: process_emit_def Let_def h1_def)
    from cs_send_ok [OF this] ok2 show ?thesis by simp
  qed
qed

lemma process_ok:
  assumes "process cs b = (cs', e)" and "rollbacks_from (cs_from cs) (cs_c cs)"
  shows "cs_from cs' = cs_from cs \<and> rollbacks_from (cs_from cs) (cs_c cs')"
proof (cases "MatchBlocks b (cs_history cs)")
  case (Inl x)
  then show ?thesis using assms by (simp add: process_def)
next
  case (Inr r)
  obtain ok L where r: "r = (ok, L)" by (cases r)
  show ?thesis
  proof (cases ok)
    case True
    then have "process_emit cs b = (cs', e)" using assms(1) Inr r by (simp add: process_def)
    then show ?thesis using process_emit_ok assms(2) by blast
  next
    case False
    obtain cs1 fl where pr: "process_reorg cs b L = (cs1, fl)"
      by (cases "process_reorg cs b L")
    have ok1: "cs_from cs1 = cs_from cs \<and> rollbacks_from (cs_from cs) (cs_c cs1)"
      using process_reorg_ok [OF pr assms(2)] .
    show ?thesis
    proof (cases fl)
      case Continue
      then have "process_emit cs1 b = (cs', e)"
        using assms(1) Inr r False pr by (simp add: process_def)
      then show ?thesis using process_emit_ok [of cs1 b cs' e] ok1 by simp
    next
      case (Return x)
      then have "cs' = cs1" using assms(1) Inr r False pr by (simp add: process_def)
      then show ?thesis using ok1 by simp
    qed
  qed
qed

lemma run_ok:
  "run cs srcs = (cs', e) \<Longrightarrow> rollbacks_from (cs_from cs) (cs_c cs) \<Longrightarrow>
   cs_from cs' = cs_from cs \<and> rollbacks_from (cs_from cs) (cs_c cs')"
proof (induction srcs arbitrary: cs)
  case Nil
  then show ?case by simp
next
  case (Cons src srcs)
  show ?case
  proof (cases "fetch cs src (run_from cs)")
    case (Inl x)
    then show ?thesis using Cons.prems by simp
  next
    case (Inr b)
    obtain cs1 e1 where p: "process cs b = (cs1, e1)" by (cases "process cs b")
    have ok1: "cs_from cs1 = cs_from cs \<and> rollbacks_from (cs_from cs) (cs_c cs1)"
      using process_ok [OF p Cons.prems(2)] .
    show ?thesis
    proof (cases e1)
      case (Some a)
      then have "cs' = cs1" using Cons.prems(1) Inr p by simp
      then show ?thesis using ok1 by simp
    next
      case None
      show ?thesis
      proof (cases "DistanceFromHead b = 0")
        case False
        then have "run cs1 srcs = (cs', e)" using Cons.prems(1) Inr p None by simp
        then show ?thesis using Cons.IH [of cs1] ok1 by simp
      next
        case True
        obtain dn ew where w: "waitOrDone (cs_done cs1) = (dn, ew)"
          by (cases "waitOrDone (cs_done cs1)")
        have ok2: "cs_from (cs1\<lparr>cs_done := dn\<rparr>) = cs_from cs \<and>
                   rollbacks_from (cs_from cs) (cs_c (cs1\<lparr>cs_done := dn\<rparr>))"
          using ok1 by simp
        show ?thesis
        proof (cases ew)
          case (Some a)
          then have "cs' = cs1\<lparr>cs_done := dn\<rparr>"
            using Cons.prems(1) Inr p None True w by simp
          then show ?thesis using ok2 by simp
        next
          case ewN: None
          then have "run (cs1\<lparr>cs_done := dn\<rparr>) srcs = (cs', e)"
            using Cons.prems(1) Inr p None True w by simp
          then show ?thesis using Cons.IH [of "cs1\<lparr>cs_done := dn\<rparr>"] ok2 by simp
        qed
      qed
    qed
  qed
qed

lemma rollback_point_int:
  fixes L frm :: u64
  assumes "L \<noteq> - 1"
  shows "uint (max (L + 1) frm) = max (uint L) (uint frm - 1) + 1"
proof -
  have "L < L + 1" using assms inc_less_eq_self_iff_eq [of L] by (simp add: not_le)
  then have "uint (L + 1) = uint L + 1"
    by uint_arith
  then show ?thesis
    by (auto simp: max_def word_le_def)
qed

section \<open>Claims about the polling loop\<close>

text \<open>
  C5. Every Rollback message a ChainStreamer subscription started at \<open>from\<close> delivers
  carries a number at or above \<open>from\<close>. The only Rollback \<open>process\<close> sends carries
  \<open>max (L + 1) from\<close>, where \<open>L\<close> is the last good block reported by the
  reconciliation; as integers this is \<open>max (L, from - 1) + 1\<close> whenever \<open>L + 1\<close> does
  not leave the 64-bit range.
\<close>

theorem rollback_never_below_from:
  "(ChainStreamer_Stream cr dial srcs dn frm = Inr sub \<longrightarrow>
      (\<forall>m \<in> set (C sub). Action m = ActionRollback \<longrightarrow> frm \<le> MsgNumber m))
   \<and> (process_reorg cs b L = (cs', fl) \<longrightarrow>
        cs_c cs' = cs_c cs \<or>
        cs_c cs' = cs_c cs @ [\<lparr>Action = ActionRollback, MsgNumber = max (L + 1) (cs_from cs),
                                MsgBlock = None\<rparr>])
   \<and> (L \<noteq> - 1 \<longrightarrow> uint (max (L + 1) (cs_from cs)) = max (uint L) (uint (cs_from cs) - 1) + 1)"
proof (intro conjI impI)
  assume s: "ChainStreamer_Stream cr dial srcs dn frm = Inr sub"
  then obtain cs0 where m: "makeChainStreamer cr dial dn frm = Inr cs0"
    by (cases "makeChainStreamer cr dial dn frm") (auto simp: ChainStreamer_Stream_def)
  then have init: "cs_from cs0 = frm" "cs_c cs0 = []"
    by (auto simp: makeChainStreamer_def Let_def split: option.splits)
  obtain cs1 e where r: "run cs0 srcs = (cs1, e)" by (cases "run cs0 srcs")
  have "rollbacks_from (cs_from cs0) (cs_c cs0)" using init by (simp add: rollbacks_from_def)
  from run_ok [OF r this] have ok: "rollbacks_from frm (cs_c cs1)" using init by simp
  have "C sub = cs_c cs1" using s m r
    by (cases e) (auto simp: ChainStreamer_Stream_def)
  then show "\<forall>m \<in> set (C sub). Action m = ActionRollback \<longrightarrow> frm \<le> MsgNumber m"
    using ok by (simp add: rollbacks_from_def)
next
  assume "process_reorg cs b L = (cs', fl)"
  from process_reorg_message [OF this]
  show "cs_c cs' = cs_c cs \<or>
        cs_c cs' = cs_c cs @ [\<lparr>Action = ActionRollback, MsgNumber = max (L + 1) (cs_from cs),
                                MsgBlock = None\<rparr>]" by simp
next
  assume "L \<noteq> - 1"
  then show "uint (max (L + 1) (cs_from cs)) = max (uint L) (uint (cs_from cs) - 1) + 1"
    by (rule rollback_point_int)
qed

theorem rollback_never_below_from_witness:
  "ChainStreamer_Stream
     \<lparr>Filter = \<lparr>Addresses = [], FromBlock = None, ToBlock = None, FilterTopics = []\<rparr>,
      FetchBatchSize = 50, BatchOverlap = 0, FetchTxDetails = False\<rparr> None
     [\<lambda>q t. Inr \<lparr>Start = 200, End = 250, DistanceFromHead = 7,
                  Blocks = [\<lparr>Number = 245, Hash = [1], Events = []\<rparr>]\<rparr>,
      \<lambda>q t. Inr \<lparr>Start = 240, End = 290, DistanceFromHead = 7,
                  Blocks = [\<lparr>Number = 245, Hash = [2], Events = []\<rparr>]\<rparr>]
     None 200 =
   Inr \<lparr>C = [\<lparr>Action = ActionAppend, MsgNumber = 0,
               MsgBlock = Some \<lparr>Number = 245, Hash = [1], Events = []\<rparr>\<rparr>,
              \<lparr>Action = ActionSetNext, MsgNumber = 250, MsgBlock = None\<rparr>,
              \<lparr>Action = ActionRollback, MsgNumber = 200, MsgBlock = None\<rparr>],
        Err = Running\<rparr>
   \<and> (200 :: u64) \<le> MsgNumber \<lparr>Action = ActionRollback, MsgNumber = 200, MsgBlock = None\<rparr>"
proof -
  let ?sub = "\<lparr>C = [\<lparr>Action = ActionAppend, MsgNumber = 0,
               MsgBlock = Some \<lparr>Number = 245, Hash = [1], Events = []\<rparr>\<rparr>,
              \<lparr>Action = ActionSetNext, MsgNumber = 250, MsgBlock = None\<rparr>,
              \<lparr>Action = ActionRollback, MsgNumber = 200, MsgBlock = None\<rparr>],
        Err = Running\<rparr>"
  have ev: "ChainStreamer_Stream
     \<lparr>Filter = \<lparr>Addresses = [], FromBlock = None, ToBlock = None, FilterTopics = []\<rparr>,
      FetchBatchSize = 50, BatchOverlap = 0, FetchTxDetails = False\<rparr> None
     [\<lambda>q t. Inr \<lparr>Start = 200, End = 250, DistanceFromHead = 7,
                  Blocks = [\<lparr>Number = 245, Hash = [1], Events = []\<rparr>]\<rparr>,
      \<lambda>q t. Inr \<lparr>Start = 240, End = 290, DistanceFromHead = 7,
                  Blocks = [\<lparr>Number = 245, Hash = [2], Events = []\<rparr>]\<rparr>]
     None 200 = Inr ?sub"
    by (simp add: ChainStreamer_Stream_def makeChainStreamer_def DefaultBatchOverlap_def
          EmptyBlockSlice_def fetch_def run_from_def process_def MatchBlocks_def
          DeleteBeforeBlock_def match_loop.simps process_emit_def Concat_def
          MaxEventlogSize_def cs_send_def sendOrDone_def process_reorg_def Rollback_def
          DeleteFromBlock_def Let_def)
  from rollback_never_below_from [THEN conjunct1, rule_format, OF ev]
  have "(200 :: u64) \<le> MsgNumber \<lparr>Action = ActionRollback, MsgNumber = 200, MsgBlock = None\<rparr>"
    by simp
  then show ?thesis using ev by simp
qed
























section \<open>Claims about the snapshot codec\<close>




end
